theory Spec2Isabelle
  imports Main
begin

section \<open>Python strings\<close>

text \<open>
  A Python \<open>str\<close> is a sequence of Unicode code points, so a string is a list of
  natural numbers (one per code point) and \<open>length\<close> counts what \<open>len\<close> counts.
  The ASCII literals of \<open>main.py\<close> are written with \<open>lit\<close>.
\<close>

type_synonym pychar = nat
type_synonym pystr = "pychar list"

definition lit :: "string \<Rightarrow> pystr" where
  "lit s = map of_char s"

text \<open>
  The whitespace test shared by \<open>str.strip()\<close>, \<open>str.split()\<close> and the regular
  expression class \<open>\s\<close> on a \<open>str\<close> pattern (CPython's \<open>Py_UNICODE_ISSPACE\<close>).
\<close>

definition is_space :: "pychar \<Rightarrow> bool" where
  "is_space c \<longleftrightarrow>
     (9 \<le> c \<and> c \<le> 13) \<or> (28 \<le> c \<and> c \<le> 32) \<or> c = 133 \<or> c = 160 \<or> c = 5760 \<or>
     (8192 \<le> c \<and> c \<le> 8202) \<or> c = 8232 \<or> c = 8233 \<or> c = 8239 \<or> c = 8287 \<or> c = 12288"

text \<open>\<open>s.strip()\<close>: whitespace removed at both ends.\<close>

definition strip :: "pystr \<Rightarrow> pystr" where
  "strip s = rev (dropWhile is_space (rev (dropWhile is_space s)))"

text \<open>
  \<open>s.split()\<close>: the maximal runs of non-whitespace characters, in order; \<open>cur\<close> is
  the word being read.
\<close>

fun split_from :: "pystr \<Rightarrow> pystr \<Rightarrow> pystr list" where
  "split_from cur [] = (if cur = [] then [] else [cur])"
| "split_from cur (c # cs) =
     (if is_space c then (if cur = [] then split_from [] cs else cur # split_from [] cs)
      else split_from (cur @ [c]) cs)"

definition split :: "pystr \<Rightarrow> pystr list" where
  "split s = split_from [] s"

text \<open>\<open>" ".join(xs)\<close>.\<close>

fun join :: "pystr list \<Rightarrow> pystr" where
  "join [] = []"
| "join [x] = x"
| "join (x # y # ys) = x @ 32 # join (y # ys)"

fun startswith :: "pystr \<Rightarrow> pystr \<Rightarrow> bool" where
  "startswith s [] = True"
| "startswith [] (p # ps) = False"
| "startswith (c # cs) (p # ps) = (c = p \<and> startswith cs ps)"

text \<open>
  \<open>s.replace(old, new)\<close>: the occurrences of \<open>old\<close> are found from the left and do
  not overlap. For an empty \<open>old\<close> Python puts \<open>new\<close> before every character and at the end.
\<close>

fun replace_from :: "pystr \<Rightarrow> pystr \<Rightarrow> pystr \<Rightarrow> pystr" where
  "replace_from [] old new = []"
| "replace_from (c # cs) old new =
     (if old \<noteq> [] \<and> startswith (c # cs) old
      then new @ replace_from (drop (length old) (c # cs)) old new
      else c # replace_from cs old new)"

definition replace :: "pystr \<Rightarrow> pystr \<Rightarrow> pystr \<Rightarrow> pystr" where
  "replace s old new =
     (if old = [] then new @ concat (map (\<lambda>c. c # new) s) else replace_from s old new)"

text \<open>
  \<open>s.capitalize()\<close>: the first character in upper case, the others in lower case.
  \<open>main.py\<close> calls it on the keys and values of its two tables only, which are ASCII;
  the case mapping of the code points above 127 is left out (they stay as they are).
\<close>

definition upper_char :: "pychar \<Rightarrow> pychar" where
  "upper_char c = (if 97 \<le> c \<and> c \<le> 122 then c - 32 else c)"

definition lower_char :: "pychar \<Rightarrow> pychar" where
  "lower_char c = (if 65 \<le> c \<and> c \<le> 90 then c + 32 else c)"

fun capitalize :: "pystr \<Rightarrow> pystr" where
  "capitalize [] = []"
| "capitalize (c # cs) = upper_char c # map lower_char cs"

text \<open>
  \<open>re.split(r"(?<=[.!?])\s+", s)\<close>: a match is a run of whitespace, taken as long as
  possible, whose first character comes right after \<open>.\<close>, \<open>!\<close> or \<open>?\<close>; the pieces
  between the matches are returned. \<open>prev\<close> is the character before the position
  being read and \<open>cur\<close> the piece read so far.
\<close>

definition is_terminator :: "pychar option \<Rightarrow> bool" where
  "is_terminator prev \<longleftrightarrow> prev = Some 46 \<or> prev = Some 33 \<or> prev = Some 63"

function re_split_from :: "pychar option \<Rightarrow> pystr \<Rightarrow> pystr \<Rightarrow> pystr list" where
  "re_split_from prev cur [] = [cur]"
| "re_split_from prev cur (c # cs) =
     (if is_space c \<and> is_terminator prev
      then cur # re_split_from (Some (last (c # takeWhile is_space cs))) []
                   (dropWhile is_space cs)
      else re_split_from (Some c) (cur @ [c]) cs)"
  by pat_completeness auto
termination
  by (relation "measure (\<lambda>(prev, cur, s). length s)")
     (auto simp: length_dropWhile_le less_Suc_eq_le)

definition re_split :: "pystr \<Rightarrow> pystr list" where
  "re_split s = re_split_from None [] s"

section \<open>The explainer of \<open>main.py\<close>\<close>

record ExplainRequest =
  text_field :: pystr

record ExplainResponse =
  original :: pystr
  explanation :: pystr
  tips :: "pystr list option"

text \<open>
  The dictionary display of \<open>explain_text\<close>, entry by entry as it is written
  (\<open>"endeavour"\<close> is there twice).
\<close>

definition replacements_display :: "(pystr \<times> pystr) list" where
  "replacements_display =
    [(lit ''utilize'', lit ''use''),
     (lit ''leverage'', lit ''use''),
     (lit ''in the event that'', lit ''if''),
     (lit ''notwithstanding'', lit ''despite''),
     (lit ''commence'', lit ''start''),
     (lit ''terminate'', lit ''end''),
     (lit ''endeavor'', lit ''try''),
     (lit ''subsequent'', lit ''next''),
     (lit ''prior to'', lit ''before''),
     (lit ''pursuant to'', lit ''under''),
     (lit ''facilitate'', lit ''help''),
     (lit ''endeavour'', lit ''try''),
     (lit ''approximately'', lit ''about''),
     (lit ''modality'', lit ''way''),
     (lit ''methodology'', lit ''method''),
     (lit ''mitigate'', lit ''reduce''),
     (lit ''ameliorate'', lit ''improve''),
     (lit ''expedite'', lit ''speed up''),
     (lit ''commensurate'', lit ''matching''),
     (lit ''endeavour'', lit ''try''),
     (lit ''aforementioned'', lit ''mentioned above''),
     (lit ''henceforth'', lit ''from now on''),
     (lit ''therein'', lit ''in it''),
     (lit ''thereof'', lit ''of it''),
     (lit ''heretofore'', lit ''until now'')]"

text \<open>
  A Python dictionary keeps its keys in insertion order: storing under a key that is
  already there changes the value and leaves the key where it is.
\<close>

fun dict_set :: "('k \<times> 'v) list \<Rightarrow> 'k \<Rightarrow> 'v \<Rightarrow> ('k \<times> 'v) list" where
  "dict_set [] k v = [(k, v)]"
| "dict_set ((k', v') # d) k v =
     (if k' = k then (k', v) # d else (k', v') # dict_set d k v)"

definition dict_of_display :: "('k \<times> 'v) list \<Rightarrow> ('k \<times> 'v) list" where
  "dict_of_display kvs = foldl (\<lambda>d (k, v). dict_set d k v) [] kvs"

text \<open>\<open>replacements.items()\<close>.\<close>

definition replacements :: "(pystr \<times> pystr) list" where
  "replacements = dict_of_display replacements_display"

definition fillers :: "pystr list" where
  "fillers =
    [lit ''it should be noted that'',
     lit ''for the avoidance of doubt'',
     lit ''in order to'',
     lit ''as per'',
     lit ''with respect to'']"

definition ellipsis :: pychar where
  "ellipsis = 8230"

definition long_tip :: pystr where
  "long_tip = lit ''Long sentence shortened for clarity''"

definition empty_message :: pystr where
  "empty_message = lit ''Please provide some text to explain.''"

definition simple_prefix :: pystr where
  "simple_prefix = lit ''In simple terms: ''"

definition gist_prefix :: pystr where
  "gist_prefix = lit ''Here'' @ 39 # lit ''s the gist: ''"

text \<open>One round of the loop over \<open>replacements.items()\<close>, and the loop.\<close>

definition jargon_step :: "pystr \<Rightarrow> pystr \<times> pystr \<Rightarrow> pystr" where
  "jargon_step simplified kv =
     replace (replace simplified (fst kv) (snd kv)) (capitalize (fst kv)) (capitalize (snd kv))"

definition simplify :: "pystr \<Rightarrow> pystr" where
  "simplify orig = foldl jargon_step orig replacements"

text \<open>One round of the loop over \<open>fillers\<close>, and the loop.\<close>

definition filler_step :: "pystr \<Rightarrow> pystr \<Rightarrow> pystr" where
  "filler_step s2 f = replace (replace s2 f []) (capitalize f) []"

definition remove_fillers :: "pystr \<Rightarrow> pystr" where
  "remove_fillers s2 = foldl filler_step s2 fillers"

text \<open>
  The body of the loop over \<open>sentences\<close>; the state is the pair of
  \<open>clean_sentences\<close> and \<open>tips\<close>.
\<close>

definition sentence_step :: "pystr list \<times> pystr list \<Rightarrow> pystr \<Rightarrow> pystr list \<times> pystr list" where
  "sentence_step st s =
     (let s2 = strip s in
      if s2 = [] then st
      else
        let s2 = remove_fillers s2;
            words = split s2
        in if length words > 24
           then (fst st @ [join (take 24 words) @ [ellipsis]], snd st @ [long_tip])
           else (fst st @ [s2], snd st))"

definition sentence_loop :: "pystr list \<Rightarrow> pystr list \<times> pystr list" where
  "sentence_loop sentences = foldl sentence_step ([], []) sentences"

text \<open>
  The names \<open>explain_text\<close> gives to its intermediate values, as functions of the
  trimmed text \<open>original\<close> (written \<open>orig\<close> here, the field of the response having the name).
\<close>

definition sentences_of :: "pystr \<Rightarrow> pystr list" where
  "sentences_of orig = re_split (simplify orig)"

definition clean_sentences_of :: "pystr \<Rightarrow> pystr list" where
  "clean_sentences_of orig = fst (sentence_loop (sentences_of orig))"

definition tips_of :: "pystr \<Rightarrow> pystr list" where
  "tips_of orig = snd (sentence_loop (sentences_of orig))"

definition joined_of :: "pystr \<Rightarrow> pystr" where
  "joined_of orig = join (clean_sentences_of orig)"

definition explain_text :: "ExplainRequest \<Rightarrow> ExplainResponse" where
  "explain_text payload =
     (let orig = strip (text_field payload) in
      if orig = []
      then \<lparr>original = text_field payload, explanation = empty_message, tips = None\<rparr>
      else
        let expl = joined_of orig;
            expl =
              (if expl = orig
               then (if length (split expl) < 30
                     then simple_prefix @ expl
                     else gist_prefix @ expl)
               else expl);
            tips_list = tips_of orig
        in \<lparr>original = orig, explanation = expl,
            tips = (if tips_list = [] then None else Some tips_list)\<rparr>)"

section \<open>Notions used to state the properties\<close>

text \<open>\<open>sub in s\<close>: the string \<open>sub\<close> occurs in \<open>s\<close>.\<close>

fun contains :: "pystr \<Rightarrow> pystr \<Rightarrow> bool" where
  "contains [] sub = (sub = [])"
| "contains (c # cs) sub = (startswith (c # cs) sub \<or> contains cs sub)"

text \<open>A word: a non-empty string without whitespace, as \<open>str.split()\<close> returns them.\<close>

definition is_word :: "pystr \<Rightarrow> bool" where
  "is_word w \<longleftrightarrow> w \<noteq> [] \<and> (\<forall>c\<in>set w. \<not> is_space c)"

text \<open>
  The jargon substitution as the specification words it: the table it lists (24 pairs,
  \<open>endeavour\<close> once), \<open>Capitalize\<close> as "first character uppercased, rest unchanged",
  and the fold in table order in which each step replaces the phrase and then its
  capitalized form on the current string.
\<close>

definition spec_jargon_table :: "(pystr \<times> pystr) list" where
  "spec_jargon_table =
    [(lit ''utilize'', lit ''use''),
     (lit ''leverage'', lit ''use''),
     (lit ''in the event that'', lit ''if''),
     (lit ''notwithstanding'', lit ''despite''),
     (lit ''commence'', lit ''start''),
     (lit ''terminate'', lit ''end''),
     (lit ''endeavor'', lit ''try''),
     (lit ''subsequent'', lit ''next''),
     (lit ''prior to'', lit ''before''),
     (lit ''pursuant to'', lit ''under''),
     (lit ''facilitate'', lit ''help''),
     (lit ''endeavour'', lit ''try''),
     (lit ''approximately'', lit ''about''),
     (lit ''modality'', lit ''way''),
     (lit ''methodology'', lit ''method''),
     (lit ''mitigate'', lit ''reduce''),
     (lit ''ameliorate'', lit ''improve''),
     (lit ''expedite'', lit ''speed up''),
     (lit ''commensurate'', lit ''matching''),
     (lit ''aforementioned'', lit ''mentioned above''),
     (lit ''henceforth'', lit ''from now on''),
     (lit ''therein'', lit ''in it''),
     (lit ''thereof'', lit ''of it''),
     (lit ''heretofore'', lit ''until now'')]"

fun spec_capitalize :: "pystr \<Rightarrow> pystr" where
  "spec_capitalize [] = []"
| "spec_capitalize (c # cs) = upper_char c # cs"

definition spec_jargon_step :: "pystr \<Rightarrow> pystr \<times> pystr \<Rightarrow> pystr" where
  "spec_jargon_step cur pr =
     replace (replace cur (fst pr) (snd pr)) (spec_capitalize (fst pr)) (spec_capitalize (snd pr))"

definition spec_simplify :: "pystr \<Rightarrow> pystr" where
  "spec_simplify orig = foldl spec_jargon_step orig spec_jargon_table"

text \<open>
  What one round of the loop over \<open>sentences\<close> appends to \<open>clean_sentences\<close> for a
  sentence that is not blank, and the test under which it also appends a tip
  (lemma \<open>sentence_step_eq\<close> relates both to \<open>sentence_step\<close>).
\<close>

definition clean_sentence :: "pystr \<Rightarrow> pystr" where
  "clean_sentence s =
     (let s2 = remove_fillers (strip s); words = split s2
      in if length words > 24 then join (take 24 words) @ [ellipsis] else s2)"

definition too_long :: "pystr \<Rightarrow> bool" where
  "too_long s \<longleftrightarrow> 24 < length (split (remove_fillers (strip s)))"

text \<open>Inputs on which the properties are evaluated.\<close>

definition thirty_words :: pystr where
  "thirty_words = lit ''a b c d e f g h i j k l m n o p q r s t u v w x y z a b c d''"

definition two_sentences :: pystr where
  "two_sentences = lit ''a b c d e f g h i j k l m n o. a b c d e f g h i j k l m n o.''"

definition spaced_sentence :: pystr where
  "spaced_sentence = lit ''a  b c d e f g h i j k l m n o p q r s t u v w x y z''"

section \<open>Strings: occurrence, trimming, words\<close>

lemma replace_from_absent: "\<not> contains s old \<Longrightarrow> replace_from s old new = s"
  by (induction s) auto

lemma contains_Nil: "contains s []"
  by (cases s) auto

lemma replace_absent: "\<not> contains s old \<Longrightarrow> replace s old new = s"
  using contains_Nil by (auto simp: replace_def replace_from_absent)

lemma dropWhile_all_iff: "(\<forall>x\<in>set (dropWhile P s). P x) \<longleftrightarrow> (\<forall>x\<in>set s. P x)"
proof
  assume a: "\<forall>x\<in>set (dropWhile P s). P x"
  have "dropWhile P s = []"
  proof (rule ccontr)
    assume n: "dropWhile P s \<noteq> []"
    then have "\<not> P (hd (dropWhile P s))" by (rule hd_dropWhile)
    moreover from n have "hd (dropWhile P s) \<in> set (dropWhile P s)" by simp
    ultimately show False using a by blast
  qed
  then show "\<forall>x\<in>set s. P x" by (simp add: dropWhile_eq_Nil_conv)
next
  assume "\<forall>x\<in>set s. P x"
  then show "\<forall>x\<in>set (dropWhile P s). P x" by (meson set_dropWhileD)
qed

lemma strip_eq_Nil: "strip s = [] \<longleftrightarrow> (\<forall>c\<in>set s. is_space c)"
  by (simp add: strip_def dropWhile_eq_Nil_conv dropWhile_all_iff)

lemma last_dropWhile: "dropWhile P xs \<noteq> [] \<Longrightarrow> last (dropWhile P xs) = last xs"
  by (induction xs) (auto split: if_splits)

lemma dropWhile_id: "xs \<noteq> [] \<Longrightarrow> \<not> P (hd xs) \<Longrightarrow> dropWhile P xs = xs"
  by (cases xs) auto

lemma strip_strip: "strip (strip s) = strip s"
proof (cases "strip s = []")
  case True
  then have "strip (strip s) = strip []" by simp
  also have "\<dots> = []" by (simp add: strip_def)
  finally show ?thesis using True by simp
next
  case False
  define d where "d = dropWhile is_space s"
  define e where "e = dropWhile is_space (rev d)"
  have u: "strip s = rev e" by (simp add: strip_def d_def e_def)
  from False u have e: "e \<noteq> []" by simp
  then have d: "d \<noteq> []" by (auto simp: e_def)
  have he: "\<not> is_space (hd e)" using e unfolding e_def by (rule hd_dropWhile)
  have hd: "\<not> is_space (hd d)" using d unfolding d_def by (rule hd_dropWhile)
  have "last e = last (rev d)" using e unfolding e_def by (rule last_dropWhile)
  then have "hd (rev e) = hd d" using e d by (simp add: hd_rev last_rev)
  then have 1: "dropWhile is_space (rev e) = rev e" using hd e by (simp add: dropWhile_id)
  have 2: "dropWhile is_space e = e" using he e by (simp add: dropWhile_id)
  show ?thesis unfolding u by (simp add: strip_def 1 2)
qed

lemma strip_decompose:
  "\<exists>a b. s = a @ strip s @ b \<and> (\<forall>c\<in>set a. is_space c) \<and> (\<forall>c\<in>set b. is_space c)"
proof -
  define d where "d = dropWhile is_space s"
  have 1: "s = takeWhile is_space s @ d" by (simp add: d_def)
  have 2: "rev d = takeWhile is_space (rev d) @ dropWhile is_space (rev d)" by simp
  have "d = rev (dropWhile is_space (rev d)) @ rev (takeWhile is_space (rev d))"
    by (metis 2 rev_append rev_rev_ident)
  then have "s = takeWhile is_space s @ strip s @ rev (takeWhile is_space (rev d))"
    using 1 by (simp add: strip_def d_def)
  moreover have "\<forall>c\<in>set (takeWhile is_space s). is_space c" by (meson set_takeWhileD)
  moreover have "\<forall>c\<in>set (rev (takeWhile is_space (rev d))). is_space c"
    by (metis set_rev set_takeWhileD)
  ultimately show ?thesis by blast
qed

lemma split_from_word:
  "\<forall>c\<in>set w. \<not> is_space c \<Longrightarrow> split_from cur (w @ rest) = split_from (cur @ w) rest"
  by (induction w arbitrary: cur) auto

lemma split_from_spaces:
  "\<forall>c\<in>set ws. is_space c \<Longrightarrow> split_from [] (ws @ rest) = split_from [] rest"
  by (induction ws) auto

lemma split_from_trailing:
  "\<forall>c\<in>set ws. is_space c \<Longrightarrow> split_from cur (s @ ws) = split_from cur s"
proof (induction s arbitrary: cur)
  case Nil
  then show ?case 
    by (cases ws) (auto simp: split_from_spaces[where rest="[]", simplified])
next
  case (Cons a s)
  then show ?case by auto
qed


lemma split_strip: "split (strip s) = split s"
proof -
  obtain a b where s: "s = a @ strip s @ b" and a: "\<forall>c\<in>set a. is_space c"
    and b: "\<forall>c\<in>set b. is_space c" using strip_decompose by blast
  have "split s = split_from [] (a @ strip s @ b)" using s by (simp add: split_def)
  also have "\<dots> = split_from [] (strip s @ b)" using a by (rule split_from_spaces)
  also have "\<dots> = split_from [] (strip s)" using b by (rule split_from_trailing)
  finally show ?thesis by (simp add: split_def)
qed

lemma split_from_words:
  "\<forall>c\<in>set cur. \<not> is_space c \<Longrightarrow> \<forall>w\<in>set (split_from cur s). is_word w"
proof (induction s arbitrary: cur)
  case Nil
  then show ?case by (simp add: is_word_def)
next
  case (Cons c s)
  show ?case
  proof (cases "is_space c")
    case True
    have "\<forall>w\<in>set (split_from [] s). is_word w" by (rule Cons.IH) simp
    with True Cons.prems show ?thesis by (simp add: is_word_def)
  next
    case False
    with Cons.prems have "\<forall>c'\<in>set (cur @ [c]). \<not> is_space c'" by simp
    then have "\<forall>w\<in>set (split_from (cur @ [c]) s). is_word w" by (rule Cons.IH)
    with False show ?thesis by simp
  qed
qed

lemma split_words: "\<forall>w\<in>set (split s). is_word w"
  unfolding split_def by (rule split_from_words) simp

lemma is_space_32: "is_space 32"
  by (simp add: is_space_def)

lemma split_join: "\<forall>w\<in>set ws. is_word w \<Longrightarrow> split (join ws) = ws"
proof (induction ws rule: join.induct)
  case 1
  then show ?case by (simp add: split_def)
next
  case (2 x)
  then have "split_from [] (x @ []) = split_from ([] @ x) []"
    by (intro split_from_word) (simp add: is_word_def)
  with 2 show ?case by (simp add: split_def is_word_def)
next
  case (3 x y ys)
  then have x: "is_word x" and ih: "split (join (y # ys)) = y # ys" by simp_all
  from x have "split_from [] (x @ 32 # join (y # ys)) = split_from ([] @ x) (32 # join (y # ys))"
    by (intro split_from_word) (simp add: is_word_def)
  also have "\<dots> = x # split_from [] (join (y # ys))"
    using x by (simp add: is_space_32 is_word_def)
  finally show ?case using ih by (simp add: split_def)
qed

lemma join_snoc: "ws \<noteq> [] \<Longrightarrow> join ws @ x = join (butlast ws @ [last ws @ x])"
  by (induction ws rule: join.induct) auto

lemma ellipsis_not_space: "\<not> is_space ellipsis"
  by (simp add: is_space_def ellipsis_def)

lemma split_shortened:
  assumes ws: "\<forall>w\<in>set ws. is_word w" and n: "ws \<noteq> []"
  shows "split (join ws @ [ellipsis]) = butlast ws @ [last ws @ [ellipsis]]"
proof -
  have "\<forall>w\<in>set (butlast ws @ [last ws @ [ellipsis]]). is_word w"
    using ws n by (auto simp: is_word_def ellipsis_not_space dest: in_set_butlastD)
  then have "split (join (butlast ws @ [last ws @ [ellipsis]])) = butlast ws @ [last ws @ [ellipsis]]"
    by (rule split_join)
  then show ?thesis using n by (simp add: join_snoc)
qed

lemma join_split_shortened:
  assumes ws: "\<forall>w\<in>set ws. is_word w" and n: "ws \<noteq> []"
  shows "join (split (join ws @ [ellipsis])) = join ws @ [ellipsis]"
proof -
  have "join (split (join ws @ [ellipsis])) = join (butlast ws @ [last ws @ [ellipsis]])"
    by (simp only: split_shortened [OF ws n])
  also have "\<dots> = join ws @ [ellipsis]" by (rule join_snoc [OF n, symmetric])
  finally show ?thesis .
qed

lemma re_split_from_nonempty: "re_split_from prev cur s \<noteq> []"
  by (induction prev cur s rule: re_split_from.induct) auto

lemma re_split_from_single:
  "length (re_split_from prev cur s) = 1 \<Longrightarrow> re_split_from prev cur s = [cur @ s]"
proof (induction prev cur s rule: re_split_from.induct)
  case (1 prev cur)
  then show ?case by simp
next
  case (2 prev cur c cs)
  show ?case
  proof (cases "is_space c \<and> is_terminator prev")
    case True
    with "2.prems" re_split_from_nonempty show ?thesis by simp
  next
    case False
    with 2 show ?thesis by simp
  qed
qed

lemma re_split_single: "length (re_split s) = 1 \<Longrightarrow> re_split s = [s]"
  unfolding re_split_def by (drule re_split_from_single) simp

section \<open>Evaluating the tables\<close>

lemmas string_defs = lit_def is_space_def upper_char_def lower_char_def

lemma replacements_items: "replacements = spec_jargon_table"
  by (simp add: replacements_def dict_of_display_def replacements_display_def
        spec_jargon_table_def string_defs)

lemma capitalize_table:
  "\<forall>kv\<in>set spec_jargon_table.
     capitalize (fst kv) = spec_capitalize (fst kv) \<and> capitalize (snd kv) = spec_capitalize (snd kv)"
  by (simp add: spec_jargon_table_def string_defs)

lemma simplify_spec: "simplify s = spec_simplify s"
  unfolding simplify_def spec_simplify_def replacements_items
  by (rule foldl_cong) (use capitalize_table in \<open>auto simp: jargon_step_def spec_jargon_step_def\<close>)

lemmas explain_defs = strip_def split_def replace_def is_terminator_def re_split_def
  fillers_def ellipsis_def long_tip_def empty_message_def simple_prefix_def gist_prefix_def
  jargon_step_def simplify_def filler_step_def remove_fillers_def sentence_step_def
  sentence_loop_def sentences_of_def clean_sentences_of_def tips_of_def joined_of_def
  explain_text_def Let_def replacements_items spec_jargon_table_def

section \<open>The loops of \<open>explain_text\<close>\<close>

lemma foldl_fixed: "\<forall>x\<in>set xs. f s x = s \<Longrightarrow> foldl f s xs = s"
  by (induction xs) auto

lemma simplify_absent:
  "list_all (\<lambda>kv. \<not> contains s (fst kv) \<and> \<not> contains s (capitalize (fst kv))) replacements
   \<Longrightarrow> simplify s = s"
  unfolding simplify_def
  by (rule foldl_fixed) (auto simp: list_all_iff jargon_step_def replace_absent)

lemma remove_fillers_absent:
  "list_all (\<lambda>f. \<not> contains s f \<and> \<not> contains s (capitalize f)) fillers
   \<Longrightarrow> remove_fillers s = s"
  unfolding remove_fillers_def
  by (rule foldl_fixed) (auto simp: list_all_iff filler_step_def replace_absent)

lemma simplify_Nil: "simplify [] = []"
  by (rule simplify_absent) (simp add: replacements_items spec_jargon_table_def string_defs)

lemma remove_fillers_Nil: "remove_fillers [] = []"
  by (rule remove_fillers_absent) (simp add: fillers_def string_defs)

lemma strip_Nil: "strip [] = []"
  by (simp add: strip_def)

lemma split_Nil: "split [] = []"
  by (simp add: split_def)

lemma too_long_not_blank: "too_long s \<Longrightarrow> strip s \<noteq> []"
  by (auto simp: too_long_def remove_fillers_Nil split_Nil)

lemma sentence_step_eq:
  "sentence_step st s =
     (if strip s = [] then st
      else (fst st @ [clean_sentence s], snd st @ (if too_long s then [long_tip] else [])))"
  by (simp add: sentence_step_def clean_sentence_def too_long_def Let_def)

lemma sentence_loop_eq:
  "foldl sentence_step st ss =
     (fst st @ map clean_sentence (filter (\<lambda>s. strip s \<noteq> []) ss),
      snd st @ map (\<lambda>s. long_tip) (filter too_long ss))"
proof (induction ss arbitrary: st)
  case Nil
  then show ?case by simp
next
  case (Cons s ss)
  have "foldl sentence_step st (s # ss) = foldl sentence_step (sentence_step st s) ss"
    by simp
  also have "\<dots> =
     (fst (sentence_step st s) @ map clean_sentence (filter (\<lambda>s. strip s \<noteq> []) ss),
      snd (sentence_step st s) @ map (\<lambda>s. long_tip) (filter too_long ss))"
    by (rule Cons.IH)
  also have "\<dots> =
     (fst st @ map clean_sentence (filter (\<lambda>s. strip s \<noteq> []) (s # ss)),
      snd st @ map (\<lambda>s. long_tip) (filter too_long (s # ss)))"
    using too_long_not_blank [of s] by (auto simp: sentence_step_eq)
  finally show ?case .
qed

lemma clean_sentences_eq:
  "clean_sentences_of orig = map clean_sentence (filter (\<lambda>s. strip s \<noteq> []) (sentences_of orig))"
  by (simp add: clean_sentences_of_def sentence_loop_def sentence_loop_eq)

lemma tips_eq:
  "tips_of orig = map (\<lambda>s. long_tip) (filter too_long (sentences_of orig))"
  by (simp add: tips_of_def sentence_loop_def sentence_loop_eq)

lemma clean_sentence_Nil_iff:
  "clean_sentence s = [] \<longleftrightarrow> remove_fillers (strip s) = []"
  by (auto simp: clean_sentence_def Let_def split_Nil)

lemma sentences_of_Nil: "sentences_of [] = [[]]"
  by (simp add: sentences_of_def simplify_Nil re_split_def)

lemma tips_of_Nil: "tips_of [] = []"
  by (simp add: tips_eq sentences_of_Nil too_long_def strip_Nil remove_fillers_Nil split_Nil)

lemma shortened_words:
  assumes "24 < length (split s2)"
  shows "length (split (join (take 24 (split s2)) @ [ellipsis])) = 24"
    and "join (split (join (take 24 (split s2)) @ [ellipsis])) = join (take 24 (split s2)) @ [ellipsis]"
proof -
  have w: "\<forall>w\<in>set (take 24 (split s2)). is_word w"
    using split_words by (meson in_set_takeD)
  have n: "take 24 (split s2) \<noteq> []" using assms by auto
  show "length (split (join (take 24 (split s2)) @ [ellipsis])) = 24"
    using assms by (simp add: split_shortened [OF w n])
  show "join (split (join (take 24 (split s2)) @ [ellipsis])) = join (take 24 (split s2)) @ [ellipsis]"
    by (rule join_split_shortened [OF w n])
qed

lemma thirty_words_response:
  assumes w: "length (split (text_field payload)) = 30"
    and one: "length (re_split (strip (text_field payload))) = 1"
    and jargon: "list_all (\<lambda>kv. \<not> contains (strip (text_field payload)) (fst kv) \<and>
                   \<not> contains (strip (text_field payload)) (capitalize (fst kv))) replacements"
    and filler: "list_all (\<lambda>f. \<not> contains (strip (text_field payload)) f \<and>
                   \<not> contains (strip (text_field payload)) (capitalize f)) fillers"
  shows "explain_text payload =
          \<lparr>original = strip (text_field payload),
           explanation = join (take 24 (split (text_field payload))) @ [ellipsis],
           tips = Some [long_tip]\<rparr>"
proof -
  define orig where "orig = strip (text_field payload)"
  define short where "short = join (take 24 (split orig)) @ [ellipsis]"
  have w30: "length (split orig) = 30" using w by (simp add: orig_def split_strip)
  then have ne: "orig \<noteq> []" by (auto simp: split_Nil)
  have "simplify orig = orig" using jargon unfolding orig_def by (rule simplify_absent)
  then have sents: "sentences_of orig = [orig]"
    using one by (simp add: sentences_of_def orig_def re_split_single)
  have ss: "strip orig = orig" by (simp add: orig_def strip_strip)
  have rf: "remove_fillers orig = orig" using filler unfolding orig_def by (rule remove_fillers_absent)
  have long: "too_long orig" by (simp add: too_long_def ss rf w30)
  have cl: "clean_sentence orig = short"
    by (simp add: clean_sentence_def Let_def ss rf w30 short_def)
  have cs: "clean_sentences_of orig = [short]"
    by (simp add: clean_sentences_eq sents ss ne cl)
  have tp: "tips_of orig = [long_tip]"
    by (simp add: tips_eq sents long)
  have j: "joined_of orig = short" by (simp add: joined_of_def cs)
  have "length (split short) = 24" unfolding short_def by (rule shortened_words) (simp add: w30)
  with w30 have d: "short \<noteq> orig" by auto
  have "explain_text payload = \<lparr>original = orig, explanation = short, tips = Some [long_tip]\<rparr>"
    using ne d by (simp add: explain_text_def Let_def orig_def [symmetric] j tp)
  then show ?thesis by (simp add: orig_def short_def split_strip)
qed

lemma gist_prefix_lit: "lit ''Here's the gist: '' = gist_prefix"
  by (simp add: gist_prefix_def lit_def)

section \<open>The properties of \<open>explain_text\<close>\<close>

text \<open>
  C1. For an input whose trimmed form is not empty, the string after the jargon loop is
  the fold of the specification over its table, in table order, starting from the trimmed
  input: each step replaces the phrase and then the phrase with its first character in
  upper case, on the current string, so a later pair sees what the earlier ones replaced.
  In particular \<open>Utilize this tool.\<close> becomes \<open>Use this tool.\<close>.
\<close>

theorem jargon_substitution_is_table_fold:
  assumes "strip (text_field payload) \<noteq> []"
  shows "simplify (strip (text_field payload)) =
           foldl spec_jargon_step (strip (text_field payload)) spec_jargon_table
         \<and> simplify (lit ''Utilize this tool.'') = lit ''Use this tool.''"
proof -
  have "simplify (lit ''Utilize this tool.'') = lit ''Use this tool.''"
    by (simp add: simplify_def jargon_step_def replace_def replacements_items
          spec_jargon_table_def string_defs)
  then show ?thesis by (simp add: simplify_spec spec_simplify_def)
qed

theorem jargon_substitution_is_table_fold_witness:
  "strip (text_field \<lparr>text_field = lit '' Utilize this tool. ''\<rparr>) \<noteq> []
   \<and> simplify (strip (text_field \<lparr>text_field = lit '' Utilize this tool. ''\<rparr>)) =
       foldl spec_jargon_step (strip (text_field \<lparr>text_field = lit '' Utilize this tool. ''\<rparr>))
         spec_jargon_table
   \<and> simplify (lit ''Utilize this tool.'') = lit ''Use this tool.''"
proof -
  have "strip (lit '' Utilize this tool. '') = lit ''Utilize this tool.''"
    by (simp add: strip_def string_defs)
  then have h: "strip (text_field \<lparr>text_field = lit '' Utilize this tool. ''\<rparr>) \<noteq> []"
    by (simp add: lit_def)
  show ?thesis
    using h jargon_substitution_is_table_fold [OF h] by blast
qed

text \<open>
  C2. A sentence that has more than 24 words after the removal of the filler phrases adds
  the tip \<open>Long sentence shortened for clarity\<close> to the tips and its first 24 words,
  joined and followed directly by the ellipsis character, to the clean sentences. In
  particular, for an input of 30 words that is a single sentence and in which no phrase
  of the jargon table and no filler phrase occurs (neither as written nor capitalized),
  the explanation is the first 24 words followed by the ellipsis and the tips hold that
  tip exactly once.
\<close>

theorem long_sentence_is_shortened:
  "(24 < length (split (remove_fillers (strip s))) \<longrightarrow>
      sentence_step (clean, tps) s =
        (clean @ [join (take 24 (split (remove_fillers (strip s)))) @ [ellipsis]],
         tps @ [lit ''Long sentence shortened for clarity'']))
   \<and> (length (split (text_field payload)) = 30
      \<and> length (re_split (strip (text_field payload))) = 1
      \<and> list_all (\<lambda>kv. \<not> contains (strip (text_field payload)) (fst kv) \<and>
                   \<not> contains (strip (text_field payload)) (capitalize (fst kv))) replacements
      \<and> list_all (\<lambda>f. \<not> contains (strip (text_field payload)) f \<and>
                   \<not> contains (strip (text_field payload)) (capitalize f)) fillers
      \<longrightarrow> explain_text payload =
          \<lparr>original = strip (text_field payload),
           explanation = join (take 24 (split (text_field payload))) @ [ellipsis],
           tips = Some [lit ''Long sentence shortened for clarity'']\<rparr>)"
proof (intro conjI impI)
  assume a: "24 < length (split (remove_fillers (strip s)))"
  then have "too_long s" by (simp add: too_long_def)
  then show "sentence_step (clean, tps) s =
        (clean @ [join (take 24 (split (remove_fillers (strip s)))) @ [ellipsis]],
         tps @ [lit ''Long sentence shortened for clarity''])"
    using a too_long_not_blank [of s]
    by (simp add: sentence_step_eq clean_sentence_def Let_def long_tip_def)
next
  assume "length (split (text_field payload)) = 30
      \<and> length (re_split (strip (text_field payload))) = 1
      \<and> list_all (\<lambda>kv. \<not> contains (strip (text_field payload)) (fst kv) \<and>
                   \<not> contains (strip (text_field payload)) (capitalize (fst kv))) replacements
      \<and> list_all (\<lambda>f. \<not> contains (strip (text_field payload)) f \<and>
                   \<not> contains (strip (text_field payload)) (capitalize f)) fillers"
  then show "explain_text payload =
          \<lparr>original = strip (text_field payload),
           explanation = join (take 24 (split (text_field payload))) @ [ellipsis],
           tips = Some [lit ''Long sentence shortened for clarity'']\<rparr>"
    using thirty_words_response [of payload] by (simp add: long_tip_def)
qed

theorem long_sentence_is_shortened_witness:
  "24 < length (split (remove_fillers (strip thirty_words)))
   \<and> sentence_step ([], []) thirty_words =
       ([lit ''a b c d e f g h i j k l m n o p q r s t u v w x'' @ [8230]],
        [lit ''Long sentence shortened for clarity''])
   \<and> length (split (text_field \<lparr>text_field = thirty_words\<rparr>)) = 30
   \<and> length (re_split (strip (text_field \<lparr>text_field = thirty_words\<rparr>))) = 1
   \<and> list_all (\<lambda>kv. \<not> contains (strip (text_field \<lparr>text_field = thirty_words\<rparr>)) (fst kv) \<and>
                   \<not> contains (strip (text_field \<lparr>text_field = thirty_words\<rparr>)) (capitalize (fst kv)))
        replacements
   \<and> list_all (\<lambda>f. \<not> contains (strip (text_field \<lparr>text_field = thirty_words\<rparr>)) f \<and>
                   \<not> contains (strip (text_field \<lparr>text_field = thirty_words\<rparr>)) (capitalize f)) fillers
   \<and> explain_text \<lparr>text_field = thirty_words\<rparr> =
        \<lparr>original = thirty_words,
         explanation = lit ''a b c d e f g h i j k l m n o p q r s t u v w x'' @ [8230],
         tips = Some [lit ''Long sentence shortened for clarity'']\<rparr>"
proof -
  have st: "strip thirty_words = thirty_words"
    by (simp add: thirty_words_def strip_def string_defs)
  have w: "length (split thirty_words) = 30"
    by (simp add: thirty_words_def split_def string_defs)
  have one: "length (re_split thirty_words) = 1"
    by (simp add: thirty_words_def re_split_def is_terminator_def string_defs)
  have jargon: "list_all (\<lambda>kv. \<not> contains thirty_words (fst kv) \<and>
                   \<not> contains thirty_words (capitalize (fst kv))) replacements"
    by (simp add: thirty_words_def replacements_items spec_jargon_table_def string_defs)
  have filler: "list_all (\<lambda>f. \<not> contains thirty_words f \<and>
                   \<not> contains thirty_words (capitalize f)) fillers"
    by (simp add: thirty_words_def fillers_def string_defs)
  have rf: "remove_fillers thirty_words = thirty_words"
    using filler by (rule remove_fillers_absent)
  have tk: "join (take 24 (split thirty_words)) = lit ''a b c d e f g h i j k l m n o p q r s t u v w x''"
    by (simp add: thirty_words_def split_def string_defs)
  have h1: "24 < length (split (remove_fillers (strip thirty_words)))"
    by (simp add: st rf w)
  note t = long_sentence_is_shortened
    [of thirty_words "[]" "[]" "\<lparr>text_field = thirty_words\<rparr>"]
  from t h1 have
    "sentence_step ([], []) thirty_words =
        ([] @ [join (take 24 (split (remove_fillers (strip thirty_words)))) @ [ellipsis]],
         [] @ [lit ''Long sentence shortened for clarity''])"
    by blast
  then have r1: "sentence_step ([], []) thirty_words =
       ([lit ''a b c d e f g h i j k l m n o p q r s t u v w x'' @ [8230]],
        [lit ''Long sentence shortened for clarity''])"
    by (simp add: st rf tk ellipsis_def)
  have h2: "length (split (text_field \<lparr>text_field = thirty_words\<rparr>)) = 30" by (simp add: w)
  have h3: "length (re_split (strip (text_field \<lparr>text_field = thirty_words\<rparr>))) = 1"
    by (simp add: st one)
  have h4: "list_all (\<lambda>kv. \<not> contains (strip (text_field \<lparr>text_field = thirty_words\<rparr>)) (fst kv) \<and>
                   \<not> contains (strip (text_field \<lparr>text_field = thirty_words\<rparr>)) (capitalize (fst kv)))
        replacements"
    using jargon by (simp add: st)
  have h5: "list_all (\<lambda>f. \<not> contains (strip (text_field \<lparr>text_field = thirty_words\<rparr>)) f \<and>
                   \<not> contains (strip (text_field \<lparr>text_field = thirty_words\<rparr>)) (capitalize f)) fillers"
    using filler by (simp add: st)
  from t h2 h3 h4 h5 have
    "explain_text \<lparr>text_field = thirty_words\<rparr> =
          \<lparr>original = strip (text_field \<lparr>text_field = thirty_words\<rparr>),
           explanation = join (take 24 (split (text_field \<lparr>text_field = thirty_words\<rparr>))) @ [ellipsis],
           tips = Some [lit ''Long sentence shortened for clarity'']\<rparr>"
    by blast
  then have r2: "explain_text \<lparr>text_field = thirty_words\<rparr> =
        \<lparr>original = thirty_words,
         explanation = lit ''a b c d e f g h i j k l m n o p q r s t u v w x'' @ [8230],
         tips = Some [lit ''Long sentence shortened for clarity'']\<rparr>"
    by (simp add: st tk ellipsis_def)
  show ?thesis using h1 r1 h2 h3 h4 h5 r2 by blast
qed

text \<open>
  C3. For an input whose trimmed form is not empty: when the joined explanation equals
  the trimmed input, the returned explanation is the joined text after
  \<open>In simple terms: \<close> if it has fewer than 30 words and after \<open>Here's the gist: \<close>
  otherwise; when it differs from the trimmed input, it is returned without a prefix.
\<close>

theorem fallback_prefix_when_unchanged:
  assumes "strip (text_field payload) \<noteq> []"
  shows "explanation (explain_text payload) =
     (if joined_of (strip (text_field payload)) = strip (text_field payload)
      then (if length (split (joined_of (strip (text_field payload)))) < 30
            then lit ''In simple terms: '' @ joined_of (strip (text_field payload))
            else lit ''Here's the gist: '' @ joined_of (strip (text_field payload)))
      else joined_of (strip (text_field payload)))"
  using assms
  by (simp add: explain_text_def Let_def simple_prefix_def gist_prefix_lit)

theorem fallback_prefix_when_unchanged_witness:
  "strip (text_field \<lparr>text_field = lit ''Hello world.''\<rparr>) \<noteq> []
   \<and> explanation (explain_text \<lparr>text_field = lit ''Hello world.''\<rparr>) =
       lit ''In simple terms: Hello world.''
   \<and> strip (text_field \<lparr>text_field = two_sentences\<rparr>) \<noteq> []
   \<and> length (split two_sentences) = 30
   \<and> explanation (explain_text \<lparr>text_field = two_sentences\<rparr>) =
       lit ''Here's the gist: '' @ two_sentences
   \<and> strip (text_field \<lparr>text_field = lit ''Utilize this tool.''\<rparr>) \<noteq> []
   \<and> explanation (explain_text \<lparr>text_field = lit ''Utilize this tool.''\<rparr>) =
       lit ''Use this tool.''"
proof -
  have s1: "strip (lit ''Hello world.'') = lit ''Hello world.''"
    by (simp add: strip_def string_defs)
  have j1: "joined_of (lit ''Hello world.'') = lit ''Hello world.''"
    by (simp add: explain_defs string_defs)
  have n1: "length (split (lit ''Hello world.'')) = 2"
    by (simp add: split_def string_defs)
  have h1: "strip (text_field \<lparr>text_field = lit ''Hello world.''\<rparr>) \<noteq> []"
    by (simp add: s1) (simp add: lit_def)
  have r1: "explanation (explain_text \<lparr>text_field = lit ''Hello world.''\<rparr>) =
       lit ''In simple terms: Hello world.''"
    using fallback_prefix_when_unchanged [OF h1] by (simp add: s1 j1 n1) (simp add: lit_def)
  have s2: "strip two_sentences = two_sentences"
    by (simp add: two_sentences_def strip_def string_defs)
  have j2: "joined_of two_sentences = two_sentences"
    by (simp add: two_sentences_def explain_defs string_defs)
  have n2: "length (split two_sentences) = 30"
    by (simp add: two_sentences_def split_def string_defs)
  have h2: "strip (text_field \<lparr>text_field = two_sentences\<rparr>) \<noteq> []"
    by (simp add: s2) (simp add: two_sentences_def lit_def)
  have r2: "explanation (explain_text \<lparr>text_field = two_sentences\<rparr>) =
       lit ''Here's the gist: '' @ two_sentences"
    using fallback_prefix_when_unchanged [OF h2] by (simp add: s2 j2 n2)
  have s3: "strip (lit ''Utilize this tool.'') = lit ''Utilize this tool.''"
    by (simp add: strip_def string_defs)
  have j3: "joined_of (lit ''Utilize this tool.'') = lit ''Use this tool.''"
    by (simp add: explain_defs string_defs)
  have d3: "lit ''Use this tool.'' \<noteq> lit ''Utilize this tool.''"
    by (simp add: lit_def)
  have h3: "strip (text_field \<lparr>text_field = lit ''Utilize this tool.''\<rparr>) \<noteq> []"
    by (simp add: s3) (simp add: lit_def)
  have r3: "explanation (explain_text \<lparr>text_field = lit ''Utilize this tool.''\<rparr>) =
       lit ''Use this tool.''"
    using fallback_prefix_when_unchanged [OF h3] by (simp add: s3 j3 d3)
  show ?thesis using h1 r1 h2 n2 r2 h3 r3 by blast
qed

text \<open>
  C4. For an input that is empty or made of whitespace only, the response has the input
  as it was submitted in \<open>original\<close>, the fixed message as explanation and no tips; and
  whenever \<open>original\<close> is not the trimmed input, the input is of that kind.
\<close>

theorem blank_input_gets_fixed_message:
  "(list_all is_space (text_field payload) \<longrightarrow>
      explain_text payload =
        \<lparr>original = text_field payload,
         explanation = lit ''Please provide some text to explain.'', tips = None\<rparr>)
   \<and> (original (explain_text payload) \<noteq> strip (text_field payload) \<longrightarrow>
        list_all is_space (text_field payload))"
  by (simp add: explain_text_def Let_def strip_eq_Nil list_all_iff empty_message_def)

theorem blank_input_gets_fixed_message_witness:
  "list_all is_space (text_field \<lparr>text_field = lit ''   ''\<rparr>)
   \<and> explain_text \<lparr>text_field = lit ''   ''\<rparr> =
        \<lparr>original = lit ''   '',
         explanation = lit ''Please provide some text to explain.'', tips = None\<rparr>
   \<and> original (explain_text \<lparr>text_field = lit ''   ''\<rparr>) \<noteq> strip (lit ''   '')
   \<and> list_all is_space (text_field \<lparr>text_field = []\<rparr>)
   \<and> explain_text \<lparr>text_field = []\<rparr> =
        \<lparr>original = [],
         explanation = lit ''Please provide some text to explain.'', tips = None\<rparr>"
proof -
  have h: "list_all is_space (text_field \<lparr>text_field = lit ''   ''\<rparr>)"
    by (simp add: string_defs)
  have h0: "list_all is_space (text_field \<lparr>text_field = []\<rparr>)"
    by simp
  have n: "strip (lit ''   '') = []"
    by (simp add: strip_def string_defs)
  have r: "explain_text \<lparr>text_field = lit ''   ''\<rparr> =
        \<lparr>original = lit ''   '',
         explanation = lit ''Please provide some text to explain.'', tips = None\<rparr>"
    using h blank_input_gets_fixed_message [of "\<lparr>text_field = lit ''   ''\<rparr>"] by simp
  have r0: "explain_text \<lparr>text_field = []\<rparr> =
        \<lparr>original = [],
         explanation = lit ''Please provide some text to explain.'', tips = None\<rparr>"
    using h0 blank_input_gets_fixed_message [of "\<lparr>text_field = []\<rparr>"] by simp
  have d: "original (explain_text \<lparr>text_field = lit ''   ''\<rparr>) \<noteq> strip (lit ''   '')"
    by (simp add: r n) (simp add: lit_def)
  show ?thesis using h r d h0 r0 by blast
qed

text \<open>
  C5, as stated, fails: a sentence that is not empty after trimming can become empty
  when the filler phrases are removed, and it is then appended to the clean sentences.
  For the input \<open>Done. As per\<close> the clean sentences are \<open>Done.\<close> and the empty
  string, and the explanation ends in the space of the join.
\<close>

theorem empty_string_is_contributed_counterexample:
  "[] \<in> set (clean_sentences_of (strip (text_field \<lparr>text_field = lit ''Done. As per''\<rparr>)))
   \<and> clean_sentences_of (strip (text_field \<lparr>text_field = lit ''Done. As per''\<rparr>)) = [lit ''Done.'', []]
   \<and> explanation (explain_text \<lparr>text_field = lit ''Done. As per''\<rparr>) = lit ''Done. ''"
  by (simp add: explain_defs string_defs)

text \<open>
  C5, amended. Only the sentences that are not empty after trimming are processed, the
  others are dropped: the clean sentences are, in order, what the loop body makes of each
  sentence whose trimmed form is not empty, one string each. Such a string is empty
  exactly when the removal of the filler phrases leaves nothing of the trimmed sentence.
\<close>

theorem blank_sentences_are_dropped:
  "clean_sentences_of orig =
     map clean_sentence (filter (\<lambda>s. strip s \<noteq> []) (sentences_of orig))
   \<and> ([] \<in> set (clean_sentences_of orig) \<longleftrightarrow>
        (\<exists>s\<in>set (sentences_of orig). strip s \<noteq> [] \<and> remove_fillers (strip s) = []))
   \<and> (strip s = [] \<longrightarrow> sentence_step st s = st)
   \<and> (strip s \<noteq> [] \<longrightarrow> fst (sentence_step st s) = fst st @ [clean_sentence s])"
proof -
  have "[] \<in> set (clean_sentences_of orig) \<longleftrightarrow>
        (\<exists>s\<in>set (sentences_of orig). strip s \<noteq> [] \<and> remove_fillers (strip s) = [])"
    unfolding clean_sentences_eq
    by (auto simp: clean_sentence_Nil_iff image_iff) (metis clean_sentence_Nil_iff)+
  then show ?thesis by (simp add: clean_sentences_eq sentence_step_eq)
qed

theorem blank_sentences_are_dropped_witness:
  "clean_sentences_of (lit ''Done. As per'') = [lit ''Done.'', []]
   \<and> sentences_of (lit ''Done. As per'') = [lit ''Done.'', lit ''As per'']
   \<and> strip (lit ''  '') = []
   \<and> sentence_step ([lit ''Done.''], []) (lit ''  '') = ([lit ''Done.''], [])
   \<and> strip (lit ''As per'') \<noteq> []
   \<and> fst (sentence_step ([lit ''Done.''], []) (lit ''As per'')) = [lit ''Done.'', []]"
proof -
  note t = blank_sentences_are_dropped [of "lit ''Done. As per''" _ "([lit ''Done.''], [])"]
  have ss: "sentences_of (lit ''Done. As per'') = [lit ''Done.'', lit ''As per'']"
    by (simp add: explain_defs string_defs)
  have s1: "strip (lit ''Done.'') = lit ''Done.''" and s2: "strip (lit ''As per'') = lit ''As per''"
    and s0: "strip (lit ''  '') = []"
    by (simp_all add: strip_def string_defs)
  have c1: "clean_sentence (lit ''Done.'') = lit ''Done.''" and c2: "clean_sentence (lit ''As per'') = []"
    by (simp_all add: clean_sentence_def explain_defs string_defs)
  have n1: "lit ''Done.'' \<noteq> []" and n2: "lit ''As per'' \<noteq> []" by (simp_all add: lit_def)
  have r1: "clean_sentences_of (lit ''Done. As per'') = [lit ''Done.'', []]"
    using t [of "[]"] by (simp add: ss s1 s2 c1 c2 n1 n2)
  have r2: "sentence_step ([lit ''Done.''], []) (lit ''  '') = ([lit ''Done.''], [])"
    using t [of "lit ''  ''"] s0 by blast
  have h3: "strip (lit ''As per'') \<noteq> []" by (simp add: s2 n2)
  have r3: "fst (sentence_step ([lit ''Done.''], []) (lit ''As per'')) = [lit ''Done.'', []]"
    using t [of "lit ''As per''"] h3 by (simp add: c2)
  show ?thesis using r1 ss s0 r2 h3 r3 by blast
qed

text \<open>
  C6. The \<open>tips\<close> field of the response is the list of tips when that list is not
  empty and is absent otherwise; the list holds the fixed tip once for each sentence that
  was shortened, so the field is present if and only if some sentence was shortened.
\<close>

theorem tips_present_iff_truncated:
  "tips (explain_text payload) =
     (if tips_of (strip (text_field payload)) = [] then None
      else Some (tips_of (strip (text_field payload))))
   \<and> tips_of (strip (text_field payload)) =
       map (\<lambda>s. lit ''Long sentence shortened for clarity'')
         (filter (\<lambda>s. 24 < length (split (remove_fillers (strip s))))
            (sentences_of (strip (text_field payload))))
   \<and> (tips (explain_text payload) \<noteq> None \<longleftrightarrow>
        (\<exists>s\<in>set (sentences_of (strip (text_field payload))).
            24 < length (split (remove_fillers (strip s)))))"
proof -
  have a: "tips (explain_text payload) =
     (if tips_of (strip (text_field payload)) = [] then None
      else Some (tips_of (strip (text_field payload))))"
    by (simp add: explain_text_def Let_def tips_of_Nil)
  have b: "tips_of (strip (text_field payload)) =
       map (\<lambda>s. lit ''Long sentence shortened for clarity'')
         (filter (\<lambda>s. 24 < length (split (remove_fillers (strip s))))
            (sentences_of (strip (text_field payload))))"
    by (simp add: tips_eq long_tip_def too_long_def [abs_def])
  have c: "tips_of (strip (text_field payload)) \<noteq> [] \<longleftrightarrow>
        (\<exists>s\<in>set (sentences_of (strip (text_field payload))).
            24 < length (split (remove_fillers (strip s))))"
    unfolding b by (auto simp: filter_empty_conv)
  from a c have "tips (explain_text payload) \<noteq> None \<longleftrightarrow>
        (\<exists>s\<in>set (sentences_of (strip (text_field payload))).
            24 < length (split (remove_fillers (strip s))))"
    by (simp split: if_splits)
  with a b show ?thesis by blast
qed

theorem tips_present_iff_truncated_witness:
  "tips (explain_text \<lparr>text_field = thirty_words\<rparr>) \<noteq> None
   \<and> tips (explain_text \<lparr>text_field = thirty_words\<rparr>) =
       Some [lit ''Long sentence shortened for clarity'']
   \<and> tips (explain_text \<lparr>text_field = lit ''Hello world.''\<rparr>) = None"
proof -
  have st: "strip thirty_words = thirty_words"
    by (simp add: thirty_words_def strip_def string_defs)
  have ss: "sentences_of thirty_words = [thirty_words]"
    by (simp add: thirty_words_def sentences_of_def simplify_def jargon_step_def replace_def
          re_split_def is_terminator_def replacements_items spec_jargon_table_def string_defs)
  have rf: "remove_fillers thirty_words = thirty_words"
    by (rule remove_fillers_absent) (simp add: thirty_words_def fillers_def string_defs)
  have w: "length (split thirty_words) = 30"
    by (simp add: thirty_words_def split_def string_defs)
  note t = tips_present_iff_truncated [of "\<lparr>text_field = thirty_words\<rparr>"]
  have tp: "tips_of thirty_words = [lit ''Long sentence shortened for clarity'']"
    using t by (simp add: st ss rf w)
  have r1: "tips (explain_text \<lparr>text_field = thirty_words\<rparr>) =
       Some [lit ''Long sentence shortened for clarity'']"
    using t by (simp add: st tp)
  have s2: "strip (lit ''Hello world.'') = lit ''Hello world.''"
    by (simp add: strip_def string_defs)
  have t2: "tips_of (lit ''Hello world.'') = []"
    by (simp add: explain_defs string_defs)
  have r2: "tips (explain_text \<lparr>text_field = lit ''Hello world.''\<rparr>) = None"
    using tips_present_iff_truncated [of "\<lparr>text_field = lit ''Hello world.''\<rparr>"]
    by (simp add: s2 t2)
  show ?thesis using r1 r2 by simp
qed




text \<open>
  C9. A sentence that is shortened is rebuilt from its first 24 words with single
  spaces: the string appended has 24 words and is equal to its own words joined by one
  space each, whatever whitespace separated them before. A sentence of at most 24 words
  is appended as the removal of the filler phrases left it, double spaces included.
\<close>

theorem truncation_rejoins_with_single_spaces:
  "(24 < length (split (remove_fillers (strip s))) \<longrightarrow>
      (\<exists>out. sentence_step st s = (fst st @ [out], snd st @ [long_tip])
         \<and> out = join (take 24 (split (remove_fillers (strip s)))) @ [ellipsis]
         \<and> length (split out) = 24
         \<and> join (split out) = out))
   \<and> (strip s \<noteq> [] \<and> length (split (remove_fillers (strip s))) \<le> 24 \<longrightarrow>
        sentence_step st s = (fst st @ [remove_fillers (strip s)], snd st))"
proof (intro conjI impI)
  assume a: "24 < length (split (remove_fillers (strip s)))"
  then have "too_long s" by (simp add: too_long_def)
  then have "sentence_step st s =
      (fst st @ [join (take 24 (split (remove_fillers (strip s)))) @ [ellipsis]], snd st @ [long_tip])"
    using a too_long_not_blank [of s]
    by (simp add: sentence_step_eq clean_sentence_def Let_def)
  with shortened_words [OF a]
  show "\<exists>out. sentence_step st s = (fst st @ [out], snd st @ [long_tip])
         \<and> out = join (take 24 (split (remove_fillers (strip s)))) @ [ellipsis]
         \<and> length (split out) = 24
         \<and> join (split out) = out"
    by blast
next
  assume "strip s \<noteq> [] \<and> length (split (remove_fillers (strip s))) \<le> 24"
  then show "sentence_step st s = (fst st @ [remove_fillers (strip s)], snd st)"
    by (simp add: sentence_step_eq clean_sentence_def Let_def too_long_def)
qed

theorem truncation_rejoins_with_single_spaces_witness:
  "24 < length (split (remove_fillers (strip spaced_sentence)))
   \<and> sentence_step ([], []) spaced_sentence =
       ([lit ''a b c d e f g h i j k l m n o p q r s t u v w x'' @ [8230]], [long_tip])
   \<and> strip (lit ''a in order to b'') \<noteq> []
   \<and> length (split (remove_fillers (strip (lit ''a in order to b'')))) \<le> 24
   \<and> sentence_step ([], []) (lit ''a in order to b'') = ([lit ''a  b''], [])"
proof -
  have st: "strip spaced_sentence = spaced_sentence"
    by (simp add: spaced_sentence_def strip_def string_defs)
  have rf: "remove_fillers spaced_sentence = spaced_sentence"
    by (rule remove_fillers_absent) (simp add: spaced_sentence_def fillers_def string_defs)
  have w: "length (split spaced_sentence) = 26"
    by (simp add: spaced_sentence_def split_def string_defs)
  have tk: "join (take 24 (split spaced_sentence)) =
      lit ''a b c d e f g h i j k l m n o p q r s t u v w x''"
    by (simp add: spaced_sentence_def split_def string_defs)
  have h1: "24 < length (split (remove_fillers (strip spaced_sentence)))"
    by (simp add: st rf w)
  note t1 = truncation_rejoins_with_single_spaces [of spaced_sentence "([], [])"]
  from t1 [THEN conjunct1, THEN mp, OF h1] have
    "sentence_step ([], []) spaced_sentence =
       ([join (take 24 (split (remove_fillers (strip spaced_sentence)))) @ [ellipsis]], [long_tip])"
    by auto
  then have r1: "sentence_step ([], []) spaced_sentence =
       ([lit ''a b c d e f g h i j k l m n o p q r s t u v w x'' @ [8230]], [long_tip])"
    by (simp add: st rf tk ellipsis_def)
  have s2: "strip (lit ''a in order to b'') = lit ''a in order to b''"
    by (simp add: strip_def string_defs)
  have f2: "remove_fillers (lit ''a in order to b'') = lit ''a  b''"
    by (simp add: remove_fillers_def filler_step_def replace_def fillers_def string_defs)
  have w2: "length (split (lit ''a  b'')) = 2"
    by (simp add: split_def string_defs)
  have h2: "strip (lit ''a in order to b'') \<noteq> []"
    by (simp add: s2) (simp add: lit_def)
  have h3: "length (split (remove_fillers (strip (lit ''a in order to b'')))) \<le> 24"
    by (simp add: s2 f2 w2)
  note t2 = truncation_rejoins_with_single_spaces [of "lit ''a in order to b''" "([], [])"]
  have "sentence_step ([], []) (lit ''a in order to b'') =
      (fst ([], []) @ [remove_fillers (strip (lit ''a in order to b''))], snd ([], []))"
    using t2 h2 h3 by simp
  then have r2: "sentence_step ([], []) (lit ''a in order to b'') = ([lit ''a  b''], [])"
    by (simp add: s2 f2)
  show ?thesis using h1 r1 h2 h3 r2 by blast
qed

text \<open>
  C10. The input \<open>in order to\<close> is not empty after trimming, its only sentence is emptied
  by the removal of the filler phrases, and the response has the trimmed input as
  \<open>original\<close>, the empty string as explanation, with no prefix, and no tips.
\<close>

theorem filler_only_input_has_empty_explanation:
  "strip (lit ''in order to'') = lit ''in order to''
   \<and> lit ''in order to'' \<noteq> []
   \<and> clean_sentences_of (lit ''in order to'') = [[]]
   \<and> explain_text \<lparr>text_field = lit ''in order to''\<rparr> =
        \<lparr>original = lit ''in order to'', explanation = [], tips = None\<rparr>"
  by (simp add: explain_defs string_defs)

end
